theory Spec2Isabelle
  imports Main "HOL-Library.Multiset"
begin

section \<open>The conformance runner \<open>testsuites/go_x509.go\<close>\<close>

text \<open>
  The runner loads a corpus of expectations, turns every expectation into two trials
  (IP and DNS), lets a pool of workers run the trials against the platform's certificate
  verifier, and counts the trials whose outcome is not the expected one. The development
  follows the source function by function: \<open>descriptions\<close>, the body of \<open>worker\<close>,
  \<open>failureCounter\<close>, \<open>runTests\<close> and \<open>main\<close>.
\<close>

subsection \<open>Data\<close>

text \<open>
  Go's \<open>error\<close> values are modelled by the places that create them. \<open>External\<close>
  carries the message of an error made by library code (file system, PEM and X.509 parsing,
  JSON decoding, \<open>Certificate.Verify\<close>); the other constructors are the errors this
  program builds itself, with the data their message is formatted from.
\<close>

datatype error =
    External string
  | LeafCount nat
  | RootCount nat
  | UnknownResult string
  | WeakOKWithoutDescription
  | UnknownDescription string
  | FailedTests nat nat

text \<open>
  The structs of the program, with their fields. Two of them have a field
  \<open>Descriptions\<close> and two a field \<open>IP\<close>: the plain names are those of
  \<open>expectation\<close>, the others are written with the name of their record. The struct
  \<open>expectations\<close>, whose only field is the slice \<open>Expects\<close>, is that list.
\<close>

record configFile =
  IP :: string
  Hostname :: string

record expectedResult =
  Result :: string
  Descriptions :: "string list"

record expectation =
  Id :: int
  IP :: expectedResult
  DNS :: expectedResult
  Descriptions :: "string list"
  testDNS :: bool
  err :: "error option"

text \<open>
  \<open>func (e *expectation) descriptions() []string\<close>: the case-level tags followed by
  the tags of the subject type under test.
\<close>

definition descriptions :: "expectation \<Rightarrow> string list" where
  "descriptions e =
     (let ret = [] @ expectation.Descriptions e
      in if testDNS e then ret @ expectedResult.Descriptions (DNS e)
         else ret @ expectedResult.Descriptions (IP e))"

subsection \<open>The description strings of \<open>worker\<close>\<close>

definition cnWithSANs :: string where
  "cnWithSANs = ''The DNS name for this certificate exists in the common name but not in the Subject Alternate Names extension even though the extension is specified. Most implementations will fail DNS-hostname validation on this certificate.''"

definition dnsInCNViolation :: string where
  "dnsInCNViolation = ''The DNS name in the common name violates a name constraint. Because there is a SAN extension, this might be ignored.''"

definition forbiddenIPAddressPresent :: string where
  "forbiddenIPAddressPresent = ''Althought the IP address is not the subject name in question, it's name constraint violation may still cause this certificate to be rejected.''"

definition ipInCNViolation :: string where
  "ipInCNViolation = ''The IP in the common name violates a name constraint. Because there is a SAN extension, this might be ignored.''"

definition ipViolation :: string where
  "ipViolation = ''The IP in the SAN extension violates a name constraint.''"

definition noIPGiven :: string where
  "noIPGiven = ''There is a IP name constraint but no IP in the certificate. This isn't an explicit violation, but some implementations will fail to validate the certificate.''"

text \<open>
  The two groups of case labels in the inner \<open>switch desc\<close>: the first group leaves
  \<open>shouldFail\<close> false, the second sets it and leaves the loop.
\<close>

definition nonFatalTags :: "string list" where
  "nonFatalTags =
     [forbiddenIPAddressPresent, noIPGiven, ipViolation, ipInCNViolation, dnsInCNViolation]"

definition fatalTags :: "string list" where
  "fatalTags = [cnWithSANs]"

subsection \<open>The expected outcome of a trial\<close>

text \<open>
  The loop labelled \<open>Descriptions\<close>. The first argument is the current value of
  \<open>shouldFail\<close>. \<open>Inr b\<close> is the value of \<open>shouldFail\<close> when the loop is left (by
  exhausting the list or by \<open>break Descriptions\<close>); \<open>Inl e\<close> is the error stored in
  \<open>test.err\<close> by the \<open>default\<close> case before \<open>continue NextTest\<close>.
\<close>

fun scanDescriptions :: "bool \<Rightarrow> string list \<Rightarrow> error + bool" where
  "scanDescriptions shouldFail [] = Inr shouldFail"
| "scanDescriptions shouldFail (desc # rest) =
     (if desc \<in> set nonFatalTags then scanDescriptions False rest
      else if desc \<in> set fatalTags then Inr True
      else Inl (UnknownDescription desc))"

text \<open>
  The \<open>switch test.DNS.Result\<close> of \<open>worker\<close>. \<open>Inr b\<close> is the value of
  \<open>shouldFail\<close> after the switch (the verification must succeed exactly when \<open>b\<close> is
  false); \<open>Inl e\<close> is the error with which the trial is sent to \<open>failures\<close>.
\<close>

definition shouldFail :: "expectation \<Rightarrow> error + bool" where
  "shouldFail test =
     (let r = Result (DNS test)
      in if r = ''ERROR'' then Inr True
         else if r = ''OK'' then Inr False
         else if r = ''WEAK-OK'' then
           (let ds = descriptions test
            in if length ds = 0 then Inl WeakOKWithoutDescription
               else scanDescriptions False ds)
         else Inl (UnknownResult r))"

subsection \<open>Library functions the program calls\<close>

text \<open>
  \<open>strconv.Itoa\<close> and the verb \<open>%d\<close>: decimal digits, with a minus sign for a
  negative number.
\<close>

definition digitChar :: "nat \<Rightarrow> char" where
  "digitChar d = ''0123456789'' ! d"

function natDigits :: "nat \<Rightarrow> string" where
  "natDigits n = (if n < 10 then [digitChar n] else natDigits (n div 10) @ [digitChar (n mod 10)])"
  by pat_completeness auto
termination
  by (relation "measure id") auto

declare natDigits.simps [simp del]

definition Itoa :: "int \<Rightarrow> string" where
  "Itoa i = (if i < 0 then CHR ''-'' # natDigits (nat (- i)) else natDigits (nat i))"

text \<open>\<open>strings.Join\<close>.\<close>

fun Join :: "string list \<Rightarrow> string \<Rightarrow> string" where
  "Join [] sep = []"
| "Join [a] sep = a"
| "Join (a # b # rest) sep = a @ sep @ Join (b # rest) sep"

text \<open>
  \<open>filepath.Join(baseDir, "certificates", name)\<close> with \<open>baseDir = ".."\<close>, on a
  system whose path separator is the slash.
\<close>

definition certificatePath :: "string \<Rightarrow> string" where
  "certificatePath name = ''../certificates/'' @ name"

definition newline :: char where
  "newline = CHR 0x0A"

text \<open>
  The verb \<open>%q\<close> is \<open>strconv.Quote\<close>, library code that the functions below take as
  a parameter. \<open>quoteASCII\<close> is what it computes on a string of ASCII bytes: the string
  between double quotes, with a backslash before a double quote or a backslash, the named
  escapes for the control characters that have one, and \<open>\x\<close> with two hexadecimal
  digits for the other bytes that are not printable. (On bytes from 0x80 upwards the
  library decodes UTF-8 and consults its table of printable runes; \<open>quoteASCII\<close> treats
  each such byte as the library treats a byte that is not valid UTF-8, and is used here on
  ASCII strings only.)
\<close>

definition hexDigit :: "nat \<Rightarrow> char" where
  "hexDigit d = ''0123456789abcdef'' ! d"

definition quoteByte :: "char \<Rightarrow> string" where
  "quoteByte c =
     (let n = (of_char c :: nat)
      in if n = 0x22 \<or> n = 0x5C then [CHR 0x5C, c]
         else if 0x20 \<le> n \<and> n < 0x7F then [c]
         else if n = 7 then [CHR 0x5C, CHR ''a'']
         else if n = 8 then [CHR 0x5C, CHR ''b'']
         else if n = 12 then [CHR 0x5C, CHR ''f'']
         else if n = 10 then [CHR 0x5C, CHR ''n'']
         else if n = 13 then [CHR 0x5C, CHR ''r'']
         else if n = 9 then [CHR 0x5C, CHR ''t'']
         else if n = 11 then [CHR 0x5C, CHR ''v'']
         else [CHR 0x5C, CHR ''x'', hexDigit (n div 16), hexDigit (n mod 16)])"

definition quoteASCII :: "string \<Rightarrow> string" where
  "quoteASCII s = CHR 0x22 # concat (map quoteByte s) @ [CHR 0x22]"

text \<open>
  \<open>err.Error()\<close>: the message of each error, from the \<open>errors.New\<close> and
  \<open>fmt.Errorf\<close> calls that build it.
\<close>

fun Error :: "(string \<Rightarrow> string) \<Rightarrow> error \<Rightarrow> string" where
  "Error q (External msg) = msg"
| "Error q (LeafCount n) =
     ''expected a single certificate in the .crt file, but found '' @ Itoa (int n)"
| "Error q (RootCount n) = ''Expected a single root in 'root.pem' but found '' @ Itoa (int n)"
| "Error q (UnknownResult r) = ''unknown expected result '' @ q r"
| "Error q WeakOKWithoutDescription = ''Weak-OK without description''"
| "Error q (UnknownDescription desc) = ''unknown description for weak-OK: '' @ q desc"
| "Error q (FailedTests k n) = ''failed '' @ Itoa (int k) @ '' of '' @ Itoa (int n) @ '' tests''"

subsection \<open>The world outside the program\<close>

text \<open>
  What a run depends on and the program does not compute: the number of CPUs, the order
  in which the scheduler lets the workers act, the certificate files, the two JSON files,
  the verifier under test and the library's quoting. \<open>readPEMChain w path\<close> is what
  the function of this name returns for the file at \<open>path\<close>, the certificates of the
  file or the error of reading or parsing it: the function only passes on what
  \<open>ioutil.ReadFile\<close>, \<open>pem.Decode\<close> and \<open>x509.ParseCertificate\<close> make of
  the file. \<open>loadConfig\<close> and \<open>loadExpectations\<close> are the results of the two
  functions of these names, which read a file and hand it to \<open>json.Unmarshal\<close>.
  \<open>Verify w leaf roots intermediates name\<close> is \<open>leaf.Verify\<close> with these
  \<open>VerifyOptions\<close>: \<open>None\<close> when the verification succeeds, the error
  otherwise. Certificates are values of a type \<open>'c\<close> the program never looks into.
\<close>

record 'c world =
  NumCPU :: nat
  schedule :: "nat list"
  readPEMChain :: "string \<Rightarrow> error + 'c list"
  loadConfig :: "error + configFile"
  loadExpectations :: "error + expectation list"
  Verify :: "'c \<Rightarrow> 'c list \<Rightarrow> 'c list \<Rightarrow> string \<Rightarrow> error option"
  Quote :: "string \<Rightarrow> string"

definition loadRoot :: "'c world \<Rightarrow> error + 'c" where
  "loadRoot w =
     (case readPEMChain w (certificatePath ''root.crt'') of
        Inl e \<Rightarrow> Inl e
      | Inr rootChain \<Rightarrow>
          if length rootChain \<noteq> 1 then Inl (RootCount (length rootChain))
          else Inr (rootChain ! 0))"

subsection \<open>\<open>worker\<close>\<close>

text \<open>
  One iteration of the loop labelled \<open>NextTest\<close>: the trial \<open>test\<close> received from
  \<open>work\<close>, and the channel \<open>failures\<close> as the list of the values sent to it so far.
  Every \<open>failures <- test\<close> appends the trial, with the error stored in it just before.
\<close>

definition nextTest ::
  "'c world \<Rightarrow> expectation list \<Rightarrow> expectation \<Rightarrow> configFile \<Rightarrow> 'c \<Rightarrow> expectation list" where
  "nextTest w failures test config root =
     (if \<not> testDNS test then failures
      else
        case readPEMChain w (certificatePath (Itoa (Id test) @ ''.chain'')) of
          Inl e \<Rightarrow> failures @ [test\<lparr>err := Some e\<rparr>]
        | Inr chain \<Rightarrow>
           (case readPEMChain w (certificatePath (Itoa (Id test) @ ''.crt'')) of
              Inl e \<Rightarrow> failures @ [test\<lparr>err := Some e\<rparr>]
            | Inr leaf \<Rightarrow>
                if length leaf \<noteq> 1 then failures @ [test\<lparr>err := Some (LeafCount (length leaf))\<rparr>]
                else
                  (case shouldFail test of
                     Inl e \<Rightarrow> failures @ [test\<lparr>err := Some e\<rparr>]
                   | Inr must_fail \<Rightarrow>
                      (case Verify w (leaf ! 0) [root] chain (Hostname config) of
                         None \<Rightarrow> if must_fail then failures @ [test] else failures
                       | Some e \<Rightarrow>
                           if must_fail then failures else failures @ [test\<lparr>err := Some e\<rparr>]))))"

text \<open>The loop of one worker that receives the trials of \<open>work\<close> in order.\<close>

fun worker ::
  "'c world \<Rightarrow> expectation list \<Rightarrow> expectation list \<Rightarrow> configFile \<Rightarrow> 'c \<Rightarrow> expectation list" where
  "worker w failures [] config root = failures"
| "worker w failures (test # work) config root =
     worker w (nextTest w failures test config root) work config root"

subsection \<open>The dispatch loop of \<open>runTests\<close>\<close>

text \<open>
  The loop over \<open>expectations.Expects\<close>: the channel \<open>work\<close> is the list of the
  values sent to it so far, and each expectation is sent twice, the copy with
  \<open>testDNS = false\<close> first. \<open>close(work)\<close> follows the loop, so the list returned is
  everything the channel ever carries.
\<close>

fun dispatch :: "expectation list \<Rightarrow> expectation list \<Rightarrow> expectation list" where
  "dispatch work [] = work"
| "dispatch work (expectation # rest) =
     (let e1 = expectation\<lparr>testDNS := False\<rparr>;
          work1 = work @ [e1];
          e2 = e1\<lparr>testDNS := True\<rparr>;
          work2 = work1 @ [e2]
      in dispatch work2 rest)"

subsection \<open>The pool of workers\<close>

text \<open>
  \<open>numWorkers\<close> goroutines run \<open>worker\<close> on the same two channels. A state of the
  pool is the trials still in \<open>work\<close>, for every worker the trial it has received and
  not yet finished (\<open>None\<close> when it waits for one), and the values sent to
  \<open>failures\<close>. The scheduler is a list of worker numbers: the worker named next either
  receives the first trial of \<open>work\<close> or finishes the iteration it is in, which is
  \<open>nextTest\<close> on the channel as it is then. A number that names no worker, and a worker
  with nothing to do, leave the state as it is.
\<close>

type_synonym poolState = "expectation list \<times> expectation option list \<times> expectation list"

fun poolStep :: "'c world \<Rightarrow> configFile \<Rightarrow> 'c \<Rightarrow> poolState \<Rightarrow> nat \<Rightarrow> poolState" where
  "poolStep w config root (work, busy, failures) i =
     (if i < length busy then
        (case busy ! i of
           Some test \<Rightarrow> (work, busy[i := None], nextTest w failures test config root)
         | None \<Rightarrow>
            (case work of
               [] \<Rightarrow> (work, busy, failures)
             | test # rest \<Rightarrow> (rest, busy[i := Some test], failures)))
      else (work, busy, failures))"

definition inFlight :: "expectation option list \<Rightarrow> expectation list" where
  "inFlight busy = concat (map (\<lambda>slot. case slot of None \<Rightarrow> [] | Some test \<Rightarrow> [test]) busy)"

text \<open>
  A run of the pool: the steps the schedule names, then the workers finish the
  iterations they are in, in the order of their numbers, and what is left of \<open>work\<close> is
  received in order. The result is the content of \<open>failures\<close> when \<open>wg.Wait()\<close>
  returns. With no worker at all nothing receives from \<open>work\<close>, and the first send of
  the dispatch loop blocks for ever: that is \<open>None\<close>.
\<close>

definition pool ::
  "'c world \<Rightarrow> configFile \<Rightarrow> 'c \<Rightarrow> nat \<Rightarrow> nat list \<Rightarrow> expectation list \<Rightarrow> expectation list option" where
  "pool w config root numWorkers sched work =
     (if numWorkers = 0 \<and> work \<noteq> [] then None
      else
        (case foldl (poolStep w config root) (work, replicate numWorkers None, []) sched of
           (work', busy, failures) \<Rightarrow>
             Some (worker w (worker w failures (inFlight busy) config root) work' config root)))"

subsection \<open>\<open>failureCounter\<close>\<close>

text \<open>
  The loop over the channel \<open>failures\<close>, with what has been printed to the standard
  output and the counter \<open>num\<close> as the state. \<open>%q\<close> of the nil error prints
  \<open>%!q(<nil>)\<close>. The counter is a natural number: a failure is a trial with
  \<open>testDNS\<close> set, there is one such trial for each element of the slice of
  expectations (\<open>reports_le_expectations\<close> below), and the length of a slice fits
  Go's \<open>int\<close>.
\<close>

definition quoteError :: "(string \<Rightarrow> string) \<Rightarrow> error option \<Rightarrow> string" where
  "quoteError q e = (case e of None \<Rightarrow> ''%!q(<nil>)'' | Some x \<Rightarrow> q (Error q x))"

fun failureCounter ::
  "(string \<Rightarrow> string) \<Rightarrow> string \<times> nat \<Rightarrow> expectation list \<Rightarrow> string \<times> nat" where
  "failureCounter q (out, num) [] = (out, num)"
| "failureCounter q (out, num) (failure # failures) =
     (let num' = num + 1;
          testType = (if testDNS failure then ''DNS'' else ''IP'');
          out' = out @ ''#'' @ Itoa (Id failure) @ '': failed for '' @ testType @ '':''
                   @ [newline] @ ''  '' @ quoteError q (err failure)
                   @ [newline] @ ''  '' @ q (Join (descriptions failure) '' '')
                   @ [newline]
      in failureCounter q (out', num') failures)"

subsection \<open>\<open>runTests\<close> and \<open>main\<close>\<close>

text \<open>
  \<open>runTests\<close> returns what \<open>failureCounter\<close> printed and the error (\<open>None\<close> for
  nil); the whole result is \<open>None\<close> when the run never returns.
\<close>

definition runTests :: "'c world \<Rightarrow> (string \<times> error option) option" where
  "runTests w =
     (case loadRoot w of
        Inl e \<Rightarrow> Some ([], Some e)
      | Inr root \<Rightarrow>
         (case loadConfig w of
            Inl e \<Rightarrow> Some ([], Some e)
          | Inr config \<Rightarrow>
             (case loadExpectations w of
                Inl e \<Rightarrow> Some ([], Some e)
              | Inr expectations \<Rightarrow>
                 (let numWorkers = NumCPU w * 2;
                      work = dispatch [] expectations
                  in case pool w config root numWorkers (schedule w) work of
                       None \<Rightarrow> None
                     | Some failures \<Rightarrow>
                        (case failureCounter (Quote w) ([], 0) failures of
                           (out, numFailures) \<Rightarrow>
                             if numFailures \<noteq> 0
                             then Some (out, Some (FailedTests numFailures (length expectations)))
                             else Some (out, None))))))"



subsection \<open>Example inputs\<close>

text \<open>
  A trial with the given id, DNS result code, case-level tags, DNS tags and subject type;
  its IP result is \<open>OK\<close> without tags.
\<close>

definition exampleTrial ::
  "int \<Rightarrow> string \<Rightarrow> string list \<Rightarrow> string list \<Rightarrow> bool \<Rightarrow> expectation" where
  "exampleTrial i code caseTags dnsTags dns =
     \<lparr>Id = i, IP = \<lparr>Result = ''OK'', Descriptions = []\<rparr>,
      DNS = \<lparr>Result = code, Descriptions = dnsTags\<rparr>,
      Descriptions = caseTags, testDNS = dns, err = None\<rparr>"

definition exampleConfig :: configFile where
  "exampleConfig = \<lparr>configFile.IP = ''127.0.0.1'', Hostname = ''example.com''\<rparr>"

text \<open>
  A world in which every certificate file holds one certificate (named by the path of the
  file), both JSON files load, and the verifier answers \<open>v\<close> whatever it is asked.
\<close>

definition exampleWorld ::
  "nat \<Rightarrow> nat list \<Rightarrow> expectation list \<Rightarrow> error option \<Rightarrow> string world" where
  "exampleWorld cpus sched es v =
     \<lparr>NumCPU = cpus, schedule = sched,
      readPEMChain = (\<lambda>path. Inr [path]),
      loadConfig = Inr exampleConfig,
      loadExpectations = Inr es,
      Verify = (\<lambda>leaf roots intermediates name. v),
      Quote = quoteASCII\<rparr>"

subsection \<open>Bookkeeping for the pool\<close>

text \<open>
  \<open>reportsOf\<close> is the multiset of the values that the iterations for a multiset of
  trials send to \<open>failures\<close>. \<open>accounted\<close> adds, for a state of the pool, what has
  been sent to what the trials in flight and the trials still in \<open>work\<close> will send.
\<close>

definition reportsOf ::
  "'c world \<Rightarrow> configFile \<Rightarrow> 'c \<Rightarrow> expectation multiset \<Rightarrow> expectation multiset" where
  "reportsOf w config root trials = (\<Sum>t\<in>#trials. mset (nextTest w [] t config root))"

definition accounted :: "'c world \<Rightarrow> configFile \<Rightarrow> 'c \<Rightarrow> poolState \<Rightarrow> expectation multiset" where
  "accounted w config root s =
     (case s of (work, busy, failures) \<Rightarrow>
        mset failures + reportsOf w config root (mset (inFlight busy) + mset work))"

text \<open>The trials of two expectations, as the dispatch loop sends them.\<close>

definition exampleWork :: "expectation list" where
  "exampleWork = dispatch [] [exampleTrial 7 ''OK'' [] [] False, exampleTrial 8 ''ERROR'' [] [] False]"


section \<open>Properties\<close>

subsection \<open>The scan of the description tags\<close>

lemma fatal_not_nonFatal: "cnWithSANs \<notin> set nonFatalTags"
  by (simp add: nonFatalTags_def cnWithSANs_def forbiddenIPAddressPresent_def noIPGiven_def
      ipViolation_def ipInCNViolation_def dnsInCNViolation_def)

lemma scan_fatal_head: "scanDescriptions b (cnWithSANs # post) = Inr True"
  using fatal_not_nonFatal by (simp add: fatalTags_def)

lemma scan_nonFatal_prefix:
  "set pre \<subseteq> set nonFatalTags \<Longrightarrow> pre \<noteq> [] \<Longrightarrow>
   scanDescriptions b (pre @ rest) = scanDescriptions False rest"
proof (induction pre arbitrary: b)
  case Nil
  then show ?case by simp
next
  case (Cons d pre)
  show ?case
  proof (cases "pre = []")
    case True
    with Cons.prems show ?thesis by simp
  next
    case False
    with Cons show ?thesis by simp
  qed
qed

lemma scan_nonFatal_then:
  "set pre \<subseteq> set nonFatalTags \<Longrightarrow>
   scanDescriptions False (pre @ rest) = scanDescriptions False rest"
  by (cases "pre = []") (simp_all add: scan_nonFatal_prefix)

lemma takeWhile_not_fatal:
  assumes "set ds \<subseteq> set nonFatalTags \<union> set fatalTags"
  shows "set (takeWhile (\<lambda>d. d \<notin> set fatalTags) ds) \<subseteq> set nonFatalTags"
proof
  fix d assume d: "d \<in> set (takeWhile (\<lambda>d. d \<notin> set fatalTags) ds)"
  then have "d \<in> set ds" and "d \<notin> set fatalTags"
    by (auto dest: set_takeWhileD)
  with assms show "d \<in> set nonFatalTags" by auto
qed

lemma split_at_first_fatal:
  assumes "set ds \<inter> set fatalTags \<noteq> {}"
  shows "\<exists>post. ds = takeWhile (\<lambda>d. d \<notin> set fatalTags) ds @ cnWithSANs # post"
proof -
  let ?P = "\<lambda>d. d \<notin> set fatalTags"
  from assms have ne: "dropWhile ?P ds \<noteq> []"
    by (auto simp: dropWhile_eq_Nil_conv)
  then obtain d post where dp: "dropWhile ?P ds = d # post"
    by (cases "dropWhile ?P ds") auto
  then have "\<not> ?P d"
    using hd_dropWhile [of ?P ds] ne by auto
  then have "d = cnWithSANs" by (simp add: fatalTags_def)
  with dp have "ds = takeWhile ?P ds @ cnWithSANs # post"
    using takeWhile_dropWhile_id [of ?P ds] by simp
  then show ?thesis ..
qed

text \<open>
  C1. Under the result code \<open>WEAK-OK\<close>, when every tag of the combined description
  list is one of the six known tags and a fatal tag is among them, \<open>shouldFail\<close> is true
  after the switch: the verification is required to fail. The scan has decided when it
  reaches the first fatal tag: the tags before it are non-fatal and do not matter, and
  whatever follows it is not looked at.
\<close>

theorem weak_ok_first_fatal_tag_wins:
  assumes "Result (DNS test) = ''WEAK-OK''"
    and "set (descriptions test) \<subseteq> set nonFatalTags \<union> set fatalTags"
    and "set (descriptions test) \<inter> set fatalTags \<noteq> {}"
  shows "shouldFail test = Inr True \<and>
         (\<forall>rest. scanDescriptions False
            (takeWhile (\<lambda>d. d \<notin> set fatalTags) (descriptions test) @ cnWithSANs # rest) = Inr True)"
proof -
  let ?ds = "descriptions test"
  let ?pre = "takeWhile (\<lambda>d. d \<notin> set fatalTags) ?ds"
  have pre: "set ?pre \<subseteq> set nonFatalTags"
    using assms(2) by (rule takeWhile_not_fatal)
  have stop: "scanDescriptions False (?pre @ cnWithSANs # rest) = Inr True" for rest
    by (simp only: scan_nonFatal_then [OF pre] scan_fatal_head)
  obtain post where split: "?ds = ?pre @ cnWithSANs # post"
    using split_at_first_fatal [OF assms(3)] by blast
  have "scanDescriptions False ?ds = Inr True"
    using stop [of post] split by simp
  moreover have "?ds \<noteq> []"
    using assms(3) by auto
  ultimately have "shouldFail test = Inr True"
    using assms(1) by (simp add: shouldFail_def)
  with stop show ?thesis by blast
qed

theorem weak_ok_first_fatal_tag_wins_witness:
  "shouldFail (exampleTrial 11 ''WEAK-OK'' [ipViolation] [noIPGiven, cnWithSANs, dnsInCNViolation] True)
     = Inr True \<and>
   scanDescriptions False ([ipViolation, noIPGiven] @ cnWithSANs # [dnsInCNViolation, ''not a tag''])
     = Inr True"
proof -
  let ?t = "exampleTrial 11 ''WEAK-OK'' [ipViolation] [noIPGiven, cnWithSANs, dnsInCNViolation] True"
  have ds: "descriptions ?t = [ipViolation, noIPGiven, cnWithSANs, dnsInCNViolation]"
    by (simp add: exampleTrial_def descriptions_def)
  have h1: "Result (DNS ?t) = ''WEAK-OK''"
    by (simp add: exampleTrial_def)
  have h2: "set (descriptions ?t) \<subseteq> set nonFatalTags \<union> set fatalTags"
    by (simp add: ds nonFatalTags_def fatalTags_def)
  have h3: "set (descriptions ?t) \<inter> set fatalTags \<noteq> {}"
    by (simp add: ds fatalTags_def)
  have tw: "takeWhile (\<lambda>d. d \<notin> set fatalTags) (descriptions ?t) = [ipViolation, noIPGiven]"
    using fatal_not_nonFatal by (auto simp: ds fatalTags_def nonFatalTags_def)
  from weak_ok_first_fatal_tag_wins [OF h1 h2 h3] show ?thesis
    by (simp add: tw)
qed

subsection \<open>The result codes\<close>

text \<open>
  C2. When the DNS result code of the trial is \<open>OK\<close>, the switch leaves
  \<open>shouldFail\<close> false (the verification is required to succeed); when it is
  \<open>ERROR\<close>, the switch sets \<open>shouldFail\<close> (the verification is required to fail).
  Neither case stores an error.
\<close>

theorem ok_must_succeed_error_must_fail:
  "(Result (DNS test) = ''OK'' \<longrightarrow> shouldFail test = Inr False) \<and>
   (Result (DNS test) = ''ERROR'' \<longrightarrow> shouldFail test = Inr True)"
  by (simp add: shouldFail_def)

theorem ok_must_succeed_error_must_fail_witness:
  "shouldFail (exampleTrial 7 ''OK'' [] [] True) = Inr False \<and>
   shouldFail (exampleTrial 8 ''ERROR'' [] [] True) = Inr True"
proof -
  have ok: "Result (DNS (exampleTrial 7 ''OK'' [] [] True)) = ''OK''"
    by (simp add: exampleTrial_def)
  have er: "Result (DNS (exampleTrial 8 ''ERROR'' [] [] True)) = ''ERROR''"
    by (simp add: exampleTrial_def)
  from ok ok_must_succeed_error_must_fail [of "exampleTrial 7 ''OK'' [] [] True"]
  have "shouldFail (exampleTrial 7 ''OK'' [] [] True) = Inr False" by blast
  moreover from er ok_must_succeed_error_must_fail [of "exampleTrial 8 ''ERROR'' [] [] True"]
  have "shouldFail (exampleTrial 8 ''ERROR'' [] [] True) = Inr True" by blast
  ultimately show ?thesis by simp
qed

text \<open>
  C10. Under the result codes \<open>OK\<close> and \<open>ERROR\<close> the description tags are not read:
  replacing the case-level tags, the DNS tags and the IP tags of the trial by any lists at
  all (empty, or with strings that are no known tag) leaves the decision as it is, and the
  decision is a value of \<open>shouldFail\<close>, not an error.
\<close>

theorem ok_error_never_read_descriptions:
  assumes "Result (DNS test) = ''OK'' \<or> Result (DNS test) = ''ERROR''"
  shows "shouldFail (test\<lparr>Descriptions := caseTags,
                         DNS := (DNS test)\<lparr>expectedResult.Descriptions := dnsTags\<rparr>,
                         IP := (IP test)\<lparr>expectedResult.Descriptions := ipTags\<rparr>\<rparr>)
           = shouldFail test \<and>
         (\<exists>b. shouldFail test = Inr b)"
  using assms by (auto simp: shouldFail_def)

theorem ok_error_never_read_descriptions_witness:
  "shouldFail (exampleTrial 7 ''OK'' [] [] True) = Inr False \<and>
   shouldFail (exampleTrial 7 ''OK'' [''no such tag''] [cnWithSANs, ''neither''] True) = Inr False"
proof -
  let ?t = "exampleTrial 7 ''OK'' [] [] True"
  have h: "Result (DNS ?t) = ''OK'' \<or> Result (DNS ?t) = ''ERROR''"
    by (simp add: exampleTrial_def)
  have upd: "?t\<lparr>Descriptions := [''no such tag''],
                DNS := (DNS ?t)\<lparr>expectedResult.Descriptions := [cnWithSANs, ''neither'']\<rparr>,
                IP := (IP ?t)\<lparr>expectedResult.Descriptions := []\<rparr>\<rparr>
             = exampleTrial 7 ''OK'' [''no such tag''] [cnWithSANs, ''neither''] True"
    by (simp add: exampleTrial_def)
  have v: "shouldFail ?t = Inr False"
    by (simp add: shouldFail_def exampleTrial_def)
  from ok_error_never_read_descriptions [OF h, where caseTags = "[''no such tag'']"
      and dnsTags = "[cnWithSANs, ''neither'']" and ipTags = "[]"]
  show ?thesis by (simp add: upd v)
qed

subsection \<open>\<open>WEAK-OK\<close> without a description, and tags that are not known\<close>

text \<open>
  C3. Under the result code \<open>WEAK-OK\<close> with an empty combined description list the
  switch yields the error \<open>Weak-OK without description\<close> and no value of
  \<open>shouldFail\<close>. The trial that reaches the switch (the one with \<open>testDNS\<close> set) is
  then sent to \<open>failures\<close> with an error, whatever the files hold and whatever the
  verifier would answer; when the chain file and the leaf file load with a single leaf, the
  error it carries is that one.
\<close>

theorem weak_ok_without_description:
  assumes "Result (DNS test) = ''WEAK-OK''" and "descriptions test = []"
  shows "shouldFail test = Inl WeakOKWithoutDescription \<and>
         (testDNS test \<longrightarrow>
            (\<exists>e. nextTest w failures test config root = failures @ [test\<lparr>err := Some e\<rparr>])) \<and>
         (testDNS test \<longrightarrow>
          readPEMChain w (certificatePath (Itoa (Id test) @ ''.chain'')) = Inr chain \<longrightarrow>
          readPEMChain w (certificatePath (Itoa (Id test) @ ''.crt'')) = Inr [leaf] \<longrightarrow>
            nextTest w failures test config root
              = failures @ [test\<lparr>err := Some WeakOKWithoutDescription\<rparr>])"
proof -
  have sf: "shouldFail test = Inl WeakOKWithoutDescription"
    using assms by (simp add: shouldFail_def)
  have "\<exists>e. nextTest w failures test config root = failures @ [test\<lparr>err := Some e\<rparr>]"
    if "testDNS test"
    using that sf by (auto simp: nextTest_def split: sum.split)
  moreover have "nextTest w failures test config root
              = failures @ [test\<lparr>err := Some WeakOKWithoutDescription\<rparr>]"
    if "testDNS test"
      and "readPEMChain w (certificatePath (Itoa (Id test) @ ''.chain'')) = Inr chain"
      and "readPEMChain w (certificatePath (Itoa (Id test) @ ''.crt'')) = Inr [leaf]"
    using that sf by (simp add: nextTest_def)
  ultimately show ?thesis using sf by blast
qed

theorem weak_ok_without_description_witness:
  "nextTest (exampleWorld 1 [] [] None) [] (exampleTrial 10 ''WEAK-OK'' [] [] True) exampleConfig ''root''
     = [(exampleTrial 10 ''WEAK-OK'' [] [] True)\<lparr>err := Some WeakOKWithoutDescription\<rparr>] \<and>
   nextTest (exampleWorld 1 [] [] (Some (External ''x509: certificate is not valid for any names'')))
       [] (exampleTrial 10 ''WEAK-OK'' [] [] True) exampleConfig ''root''
     = [(exampleTrial 10 ''WEAK-OK'' [] [] True)\<lparr>err := Some WeakOKWithoutDescription\<rparr>]"
proof -
  let ?t = "exampleTrial 10 ''WEAK-OK'' [] [] True"
  have h1: "Result (DNS ?t) = ''WEAK-OK''" by (simp add: exampleTrial_def)
  have h2: "descriptions ?t = []" by (simp add: exampleTrial_def descriptions_def)
  have h3: "testDNS ?t" by (simp add: exampleTrial_def)
  have h4: "readPEMChain (exampleWorld 1 [] [] v) (certificatePath (Itoa (Id ?t) @ ''.chain''))
              = Inr [certificatePath (Itoa (Id ?t) @ ''.chain'')]" for v
    by (simp add: exampleWorld_def)
  have h5: "readPEMChain (exampleWorld 1 [] [] v) (certificatePath (Itoa (Id ?t) @ ''.crt''))
              = Inr [certificatePath (Itoa (Id ?t) @ ''.crt'')]" for v
    by (simp add: exampleWorld_def)
  from weak_ok_without_description [OF h1 h2, of "exampleWorld 1 [] [] None"] h3 h4 h5
  have a: "nextTest (exampleWorld 1 [] [] None) [] ?t exampleConfig ''root''
             = [] @ [?t\<lparr>err := Some WeakOKWithoutDescription\<rparr>]"
    by blast
  from weak_ok_without_description [OF h1 h2,
      of "exampleWorld 1 [] [] (Some (External ''x509: certificate is not valid for any names''))"]
    h3 h4 h5
  have b: "nextTest (exampleWorld 1 [] [] (Some (External ''x509: certificate is not valid for any names'')))
             [] ?t exampleConfig ''root''
             = [] @ [?t\<lparr>err := Some WeakOKWithoutDescription\<rparr>]"
    by blast
  from a b show ?thesis by simp
qed

text \<open>
  C4, as the claim states it, fails in two places. Under the result code \<open>OK\<close> a string
  that is no known tag is among the descriptions and the decision is \<open>shouldFail =
  false\<close>, with no error. Under \<open>WEAK-OK\<close> the same string after the fatal tag is never
  reached, and the decision is \<open>shouldFail = true\<close>.
\<close>

theorem unknown_tag_counterexample:
  "''no such tag'' \<in> set (descriptions (exampleTrial 7 ''OK'' [''no such tag''] [] True)) \<and>
   ''no such tag'' \<notin> set (nonFatalTags @ fatalTags) \<and>
   shouldFail (exampleTrial 7 ''OK'' [''no such tag''] [] True) = Inr False \<and>
   ''no such tag'' \<in> set (descriptions (exampleTrial 12 ''WEAK-OK'' [] [cnWithSANs, ''no such tag''] True)) \<and>
   shouldFail (exampleTrial 12 ''WEAK-OK'' [] [cnWithSANs, ''no such tag''] True) = Inr True"
proof -
  have "''no such tag'' \<notin> set (nonFatalTags @ fatalTags)"
    by (simp add: nonFatalTags_def fatalTags_def cnWithSANs_def forbiddenIPAddressPresent_def
        noIPGiven_def ipViolation_def ipInCNViolation_def dnsInCNViolation_def)
  moreover have "shouldFail (exampleTrial 12 ''WEAK-OK'' [] [cnWithSANs, ''no such tag''] True) = Inr True"
    by (simp add: shouldFail_def exampleTrial_def descriptions_def scan_fatal_head
        del: scanDescriptions.simps)
  ultimately show ?thesis
    by (simp add: shouldFail_def exampleTrial_def descriptions_def)
qed

text \<open>
  C4, amended. Under the result code \<open>WEAK-OK\<close>, when a string that is none of the six
  known tags stands in the combined description list with only non-fatal tags before it,
  the switch yields the error \<open>unknown description for weak-OK\<close> that carries this
  string.
\<close>

theorem weak_ok_unknown_tag_is_error:
  assumes "Result (DNS test) = ''WEAK-OK''"
    and "descriptions test = pre @ desc # post"
    and "set pre \<subseteq> set nonFatalTags"
    and "desc \<notin> set nonFatalTags \<union> set fatalTags"
  shows "shouldFail test = Inl (UnknownDescription desc)"
proof -
  have "scanDescriptions False (pre @ desc # post) = scanDescriptions False (desc # post)"
    using assms(3) by (rule scan_nonFatal_then)
  also have "\<dots> = Inl (UnknownDescription desc)"
    using assms(4) by simp
  finally show ?thesis
    using assms(1,2) by (simp add: shouldFail_def)
qed

theorem weak_ok_unknown_tag_is_error_witness:
  "shouldFail (exampleTrial 13 ''WEAK-OK'' [ipViolation] [''no such tag'', cnWithSANs] True)
     = Inl (UnknownDescription ''no such tag'')"
proof -
  let ?t = "exampleTrial 13 ''WEAK-OK'' [ipViolation] [''no such tag'', cnWithSANs] True"
  have h1: "Result (DNS ?t) = ''WEAK-OK''" by (simp add: exampleTrial_def)
  have h2: "descriptions ?t = [ipViolation] @ ''no such tag'' # [cnWithSANs]"
    by (simp add: exampleTrial_def descriptions_def)
  have h3: "set [ipViolation] \<subseteq> set nonFatalTags" by (simp add: nonFatalTags_def)
  have h4: "''no such tag'' \<notin> set nonFatalTags \<union> set fatalTags"
    by (simp add: nonFatalTags_def fatalTags_def cnWithSANs_def forbiddenIPAddressPresent_def
        noIPGiven_def ipViolation_def ipInCNViolation_def dnsInCNViolation_def)
  from weak_ok_unknown_tag_is_error [OF h1 h2 h3 h4] show ?thesis .
qed

subsection \<open>One iteration, one worker, the pool\<close>

lemma nextTest_append:
  "nextTest w failures test config root = failures @ nextTest w [] test config root"
  by (simp add: nextTest_def split: sum.split option.split)

lemma nextTest_at_most_one: "length (nextTest w [] test config root) \<le> 1"
  by (simp add: nextTest_def split: sum.split option.split)


lemma nextTest_skips_IP: "\<not> testDNS test \<Longrightarrow> nextTest w failures test config root = failures"
  by (simp add: nextTest_def)

lemma worker_concat:
  "worker w failures work config root
     = failures @ concat (map (\<lambda>t. nextTest w [] t config root) work)"
proof (induction work arbitrary: failures)
  case Nil
  show ?case by simp
next
  case (Cons test work)
  show ?case
    by (simp add: Cons.IH nextTest_append [of w failures])
qed

lemma inFlight_replicate: "inFlight (replicate n None) = []"
  by (induction n) (simp_all add: inFlight_def)

lemma inFlight_Cons: "inFlight (slot # busy) = (case slot of None \<Rightarrow> [] | Some t \<Rightarrow> [t]) @ inFlight busy"
  by (simp add: inFlight_def)

lemma inFlight_receive:
  "i < length busy \<Longrightarrow> busy ! i = None \<Longrightarrow>
   mset (inFlight (busy[i := Some t])) = add_mset t (mset (inFlight busy))"
proof (induction busy arbitrary: i)
  case Nil
  then show ?case by simp
next
  case (Cons slot busy)
  then show ?case
    by (cases i) (simp_all add: inFlight_Cons)
qed

lemma inFlight_finish:
  "i < length busy \<Longrightarrow> busy ! i = Some t \<Longrightarrow>
   add_mset t (mset (inFlight (busy[i := None]))) = mset (inFlight busy)"
proof (induction busy arbitrary: i)
  case Nil
  then show ?case by simp
next
  case (Cons slot busy)
  then show ?case
    by (cases i) (simp_all add: inFlight_Cons)
qed

lemma reportsOf_list:
  "mset (concat (map (\<lambda>t. nextTest w [] t config root) ts)) = reportsOf w config root (mset ts)"
  by (induction ts) (simp_all add: reportsOf_def)

lemma reportsOf_add_mset:
  "reportsOf w config root (add_mset t M) = mset (nextTest w [] t config root) + reportsOf w config root M"
  by (simp add: reportsOf_def)

lemma reportsOf_union:
  "reportsOf w config root (M + N) = reportsOf w config root M + reportsOf w config root N"
  by (simp add: reportsOf_def)

lemma poolStep_accounted:
  "accounted w config root (poolStep w config root s i) = accounted w config root s"
proof -
  obtain work busy failures where s: "s = (work, busy, failures)"
    by (cases s) auto
  show ?thesis
  proof (cases "i < length busy")
    case False
    then show ?thesis by (simp add: s)
  next
    case inside: True
    show ?thesis
    proof (cases "busy ! i")
      case (Some test)
      have "mset (inFlight busy) = add_mset test (mset (inFlight (busy[i := None])))"
        using inFlight_finish [OF inside Some] by simp
      then show ?thesis
        using inside Some
        by (simp add: s accounted_def reportsOf_union reportsOf_add_mset
            nextTest_append [of w failures])
    next
      case None
      show ?thesis
      proof (cases work)
        case Nil
        then show ?thesis using inside None by (simp add: s)
      next
        case (Cons test rest)
        then show ?thesis
          using inside None inFlight_receive [OF inside None, of test]
          by (simp add: s accounted_def reportsOf_union reportsOf_add_mset)
      qed
    qed
  qed
qed

lemma foldl_poolStep_accounted:
  "accounted w config root (foldl (poolStep w config root) s sched) = accounted w config root s"
  by (induction sched arbitrary: s) (simp_all add: poolStep_accounted)

lemma pool_reports:
  assumes "pool w config root n sched work = Some fs"
  shows "mset fs = reportsOf w config root (mset work)"
proof -
  obtain work' busy failures where
    final: "foldl (poolStep w config root) (work, replicate n None, []) sched = (work', busy, failures)"
    by (cases "foldl (poolStep w config root) (work, replicate n None, []) sched") auto
  from assms final have
    fs: "fs = worker w (worker w failures (inFlight busy) config root) work' config root"
    by (simp add: pool_def split: if_splits)
  have "mset fs = accounted w config root (work', busy, failures)"
    by (simp add: fs worker_concat accounted_def reportsOf_list reportsOf_union)
  also have "\<dots> = accounted w config root (work, replicate n None, [])"
    using foldl_poolStep_accounted [of w config root "(work, replicate n None, [])" sched] final
    by simp
  also have "\<dots> = reportsOf w config root (mset work)"
    by (simp add: accounted_def inFlight_replicate)
  finally show ?thesis .
qed

lemma pool_returns:
  "1 \<le> n \<or> work = [] \<Longrightarrow> \<exists>fs. pool w config root n sched work = Some fs"
  by (auto simp: pool_def split: prod.split)

lemma failureCounter_count:
  "snd (failureCounter q (out, num) failures) = num + length failures"
  by (induction failures arbitrary: out num) (simp_all add: Let_def)

lemma nextTest_same_world:
  "nextTest (w\<lparr>NumCPU := k, schedule := s\<rparr>) failures test config root
     = nextTest w failures test config root"
  by (simp add: nextTest_def split: sum.split option.split)

lemma loadRoot_same_world: "loadRoot (w\<lparr>NumCPU := k, schedule := s\<rparr>) = loadRoot w"
  by (simp add: loadRoot_def)

lemma reportsOf_same_world:
  "reportsOf (w\<lparr>NumCPU := k, schedule := s\<rparr>) config root M = reportsOf w config root M"
  by (simp add: reportsOf_def nextTest_same_world)

lemma runTests_result:
  assumes "1 \<le> NumCPU w"
  shows "map_option snd (runTests w) =
     (case loadRoot w of
        Inl e \<Rightarrow> Some (Some e)
      | Inr root \<Rightarrow>
         (case loadConfig w of
            Inl e \<Rightarrow> Some (Some e)
          | Inr config \<Rightarrow>
             (case loadExpectations w of
                Inl e \<Rightarrow> Some (Some e)
              | Inr es \<Rightarrow>
                 (let k = size (reportsOf w config root (mset (dispatch [] es)))
                  in if k \<noteq> 0 then Some (Some (FailedTests k (length es))) else Some None))))"
proof (cases "loadRoot w")
  case (Inl e)
  then show ?thesis by (simp add: runTests_def)
next
  case root: (Inr root)
  show ?thesis
  proof (cases "loadConfig w")
    case (Inl e)
    with root show ?thesis by (simp add: runTests_def)
  next
    case config: (Inr config)
    show ?thesis
    proof (cases "loadExpectations w")
      case (Inl e)
      with root config show ?thesis by (simp add: runTests_def)
    next
      case es: (Inr es)
      from assms obtain fs where
        fs: "pool w config root (NumCPU w * 2) (schedule w) (dispatch [] es) = Some fs"
        using pool_returns [of "NumCPU w * 2" "dispatch [] es" w config root "schedule w"] by auto
      have size: "size (reportsOf w config root (mset (dispatch [] es))) = length fs"
        using pool_reports [OF fs] by (metis size_mset)
      obtain out num where fc: "failureCounter (Quote w) ([], 0) fs = (out, num)"
        by (cases "failureCounter (Quote w) ([], 0) fs") auto
      have num: "num = length fs"
        using failureCounter_count [of "Quote w" "[]" 0 fs] fc by simp
      show ?thesis
        using root config es fs fc num size by (simp add: runTests_def Let_def)
    qed
  qed
qed

lemma exampleWork_eq:
  "exampleWork = [exampleTrial 7 ''OK'' [] [] False, exampleTrial 7 ''OK'' [] [] True,
                  exampleTrial 8 ''ERROR'' [] [] False, exampleTrial 8 ''ERROR'' [] [] True]"
  by (simp add: exampleWork_def exampleTrial_def)

lemma example_nextTest:
  "nextTest (exampleWorld c s es None) fs (exampleTrial 7 ''OK'' [] [] False) exampleConfig r = fs"
  "nextTest (exampleWorld c s es None) fs (exampleTrial 7 ''OK'' [] [] True) exampleConfig r = fs"
  "nextTest (exampleWorld c s es None) fs (exampleTrial 8 ''ERROR'' [] [] False) exampleConfig r = fs"
  "nextTest (exampleWorld c s es None) fs (exampleTrial 8 ''ERROR'' [] [] True) exampleConfig r
     = fs @ [exampleTrial 8 ''ERROR'' [] [] True]"
  by (simp_all add: nextTest_def exampleWorld_def exampleTrial_def shouldFail_def)

subsection \<open>Every schedule gives the same verdict\<close>

text \<open>
  C6. For one world (the files and the verifier answer the same way in both runs), two
  runs of the pool with any numbers of workers of at least 1, any schedules, and work lists
  that are permutations of each other both return, and they deliver the same failures up to
  their order: the same multiset, hence the same set and the same count from
  \<open>failureCounter\<close>. The error that \<open>runTests\<close> returns (nil, or the one with the
  number of failures) is the same for any two numbers of CPUs and schedules.
\<close>

theorem verdict_independent_of_schedule:
  assumes "1 \<le> n1" and "1 \<le> n2" and "mset work1 = mset work2"
  shows "(\<exists>f1 f2. pool w config root n1 sched1 work1 = Some f1 \<and>
                  pool w config root n2 sched2 work2 = Some f2 \<and>
                  mset f1 = mset f2 \<and> set f1 = set f2 \<and>
                  snd (failureCounter q ([], 0) f1) = snd (failureCounter q ([], 0) f2)) \<and>
         map_option snd (runTests (w\<lparr>NumCPU := n1, schedule := sched1\<rparr>))
           = map_option snd (runTests (w\<lparr>NumCPU := n2, schedule := sched2\<rparr>))"
proof -
  obtain f1 where f1: "pool w config root n1 sched1 work1 = Some f1"
    using pool_returns [of n1 work1 w config root sched1] assms(1) by auto
  obtain f2 where f2: "pool w config root n2 sched2 work2 = Some f2"
    using pool_returns [of n2 work2 w config root sched2] assms(2) by auto
  have same: "mset f1 = mset f2"
    using pool_reports [OF f1] pool_reports [OF f2] assms(3) by simp
  then have "set f1 = set f2"
    by (rule mset_eq_setD)
  moreover from same have "length f1 = length f2"
    by (rule mset_eq_length)
  then have "snd (failureCounter q ([], 0) f1) = snd (failureCounter q ([], 0) f2)"
    by (simp add: failureCounter_count)
  moreover have "map_option snd (runTests (w\<lparr>NumCPU := n1, schedule := sched1\<rparr>))
           = map_option snd (runTests (w\<lparr>NumCPU := n2, schedule := sched2\<rparr>))"
    using assms(1,2)
    by (simp add: runTests_result loadRoot_same_world reportsOf_same_world
        cong: sum.case_cong)
  ultimately show ?thesis
    using f1 f2 same by blast
qed

theorem verdict_independent_of_schedule_witness:
  "pool (exampleWorld 1 [] [] None) exampleConfig ''root'' 1 [] exampleWork
     = Some [exampleTrial 8 ''ERROR'' [] [] True] \<and>
   pool (exampleWorld 1 [] [] None) exampleConfig ''root'' 3 [2, 0, 1, 1, 0, 2, 2, 5, 0] (rev exampleWork)
     = Some [exampleTrial 8 ''ERROR'' [] [] True]"
proof -
  let ?W = "exampleWorld 1 [] [] None"
  have h1: "(1::nat) \<le> 1" and h2: "(1::nat) \<le> 3" by simp_all
  have h3: "mset exampleWork = mset (rev exampleWork)" by simp
  have a: "pool ?W exampleConfig ''root'' 1 [] exampleWork = Some [exampleTrial 8 ''ERROR'' [] [] True]"
    by (simp add: pool_def exampleWork_eq inFlight_def example_nextTest)
  from verdict_independent_of_schedule [OF h1 h2 h3, of ?W exampleConfig "''root''" "[]"
      "[2, 0, 1, 1, 0, 2, 2, 5, 0]" quoteASCII]
  obtain f2 where "pool ?W exampleConfig ''root'' 3 [2, 0, 1, 1, 0, 2, 2, 5, 0] (rev exampleWork) = Some f2"
    and "mset [exampleTrial 8 ''ERROR'' [] [] True] = mset f2"
    using a by auto
  then show ?thesis using a by (simp add: mset_single_iff_right)
qed

subsection \<open>What reaches the channel \<open>failures\<close>\<close>




subsection \<open>The dispatch loop\<close>

lemma dispatch_concat:
  "dispatch work es = work @ concat (map (\<lambda>e. [e\<lparr>testDNS := False\<rparr>, e\<lparr>testDNS := True\<rparr>]) es)"
  by (induction es arbitrary: work) (simp_all add: Let_def)

lemma nth_pairs:
  "i < length es \<Longrightarrow>
   concat (map (\<lambda>e. [f e, g e]) es) ! (2 * i) = f (es ! i) \<and>
   concat (map (\<lambda>e. [f e, g e]) es) ! (2 * i + 1) = g (es ! i)"
proof (induction es arbitrary: i)
  case Nil
  then show ?case by simp
next
  case (Cons e es)
  then show ?case by (cases i) simp_all
qed

text \<open>
  C8. The dispatch loop sends exactly twice as many trials as there are expectations: for
  the expectation at position \<open>i\<close>, its copy with \<open>testDNS = false\<close> (the IP
  trial) at position \<open>2 i\<close> and its copy with \<open>testDNS = true\<close> (the DNS trial) at
  position \<open>2 i + 1\<close>. The channel is closed after the loop.
\<close>

theorem dispatch_two_trials_each:
  "length (dispatch [] es) = 2 * length es \<and>
   (\<forall>i. i < length es \<longrightarrow>
      dispatch [] es ! (2 * i) = (es ! i)\<lparr>testDNS := False\<rparr> \<and>
      dispatch [] es ! (2 * i + 1) = (es ! i)\<lparr>testDNS := True\<rparr>)"
proof -
  have "length (dispatch [] es) = 2 * length es"
    by (induction es) (simp_all add: dispatch_concat)
  moreover have "dispatch [] es ! (2 * i) = (es ! i)\<lparr>testDNS := False\<rparr> \<and>
      dispatch [] es ! (2 * i + 1) = (es ! i)\<lparr>testDNS := True\<rparr>" if "i < length es" for i
    using nth_pairs [OF that, of "\<lambda>e. e\<lparr>testDNS := False\<rparr>" "\<lambda>e. e\<lparr>testDNS := True\<rparr>"]
    by (simp add: dispatch_concat)
  ultimately show ?thesis by blast
qed

theorem dispatch_two_trials_each_witness:
  "length exampleWork = 4 \<and>
   exampleWork ! 2 = exampleTrial 8 ''ERROR'' [] [] False \<and>
   exampleWork ! 3 = exampleTrial 8 ''ERROR'' [] [] True"
proof -
  let ?es = "[exampleTrial 7 ''OK'' [] [] False, exampleTrial 8 ''ERROR'' [] [] False]"
  have h: "(1::nat) < length ?es" by simp
  have f: "(?es ! 1)\<lparr>testDNS := False\<rparr> = exampleTrial 8 ''ERROR'' [] [] False"
    and t: "(?es ! 1)\<lparr>testDNS := True\<rparr> = exampleTrial 8 ''ERROR'' [] [] True"
    by (simp_all add: exampleTrial_def)
  from dispatch_two_trials_each [of ?es] h
  have "length (dispatch [] ?es) = 2 * length ?es"
    and "dispatch [] ?es ! (2 * 1) = (?es ! 1)\<lparr>testDNS := False\<rparr>"
    and "dispatch [] ?es ! (2 * 1 + 1) = (?es ! 1)\<lparr>testDNS := True\<rparr>"
    by blast+
  then show ?thesis
    unfolding f t exampleWork_def by (simp add: Let_def)
qed

text \<open>
  There are never more failures than expectations, whatever the schedule: the IP trial
  of an expectation sends nothing and its DNS trial at most one value. So the counter of
  \<open>failureCounter\<close> stays within the length of a slice.
\<close>

lemma reports_le_expectations:
  assumes "pool w config root n sched (dispatch [] es) = Some failures"
  shows "length failures \<le> length es"
proof -
  let ?R = "\<lambda>t. nextTest w [] t config root"
  have "length (concat (map ?R (concat (map (\<lambda>e. [e\<lparr>testDNS := False\<rparr>, e\<lparr>testDNS := True\<rparr>]) xs))))
          \<le> length xs" for xs
  proof (induction xs)
    case Nil
    show ?case by simp
  next
    case (Cons e xs)
    have "?R (e\<lparr>testDNS := False\<rparr>) = []"
      by (simp add: nextTest_skips_IP)
    moreover have "length (?R (e\<lparr>testDNS := True\<rparr>)) \<le> 1"
      by (rule nextTest_at_most_one)
    ultimately show ?case using Cons.IH by simp
  qed
  from this [of es] have "size (reportsOf w config root (mset (dispatch [] es))) \<le> length es"
    by (simp add: reportsOf_list [symmetric] dispatch_concat)
  then show ?thesis
    using pool_reports [OF assms] by (metis size_mset)
qed

subsection \<open>What \<open>failureCounter\<close> prints\<close>

lemma digitChar_not_newline: "d < 10 \<Longrightarrow> digitChar d \<noteq> newline"
proof -
  assume "d < 10"
  then have "digitChar d \<in> set ''0123456789''"
    unfolding digitChar_def by (intro nth_mem) simp
  moreover have "newline \<notin> set ''0123456789''"
    by (simp add: newline_def)
  ultimately show ?thesis by metis
qed

lemma natDigits_no_newline: "newline \<notin> set (natDigits n)"
proof (induction n rule: natDigits.induct)
  case (1 n)
  show ?case
  proof (cases "n < 10")
    case True
    then show ?thesis
      using digitChar_not_newline [of n] by (simp add: natDigits.simps [of n])
  next
    case False
    then show ?thesis
      using 1 digitChar_not_newline [of "n mod 10"] by (simp add: natDigits.simps [of n])
  qed
qed

lemma Itoa_no_newline: "newline \<notin> set (Itoa i)"
  using natDigits_no_newline by (simp add: Itoa_def newline_def)

lemma hexDigit_not_newline: "d < 16 \<Longrightarrow> hexDigit d \<noteq> newline"
proof -
  assume "d < 16"
  then have "hexDigit d \<in> set ''0123456789abcdef''"
    unfolding hexDigit_def by (intro nth_mem) simp
  moreover have "newline \<notin> set ''0123456789abcdef''"
    by (simp add: newline_def)
  ultimately show ?thesis by metis
qed

lemma quoteByte_no_newline: "newline \<notin> set (quoteByte c)"
proof -
  have small: "(of_char c :: nat) div 16 < 16" "(of_char c :: nat) mod 16 < 16"
    using nat_of_char_less_256 [of c] by arith+
  have nl: "(of_char newline :: nat) = 10" by (simp add: newline_def)
  have "c \<noteq> newline" if "(of_char c :: nat) \<noteq> 10"
    using that nl by auto
  then show ?thesis
    using hexDigit_not_newline [OF small(1)] hexDigit_not_newline [OF small(2)]
    by (auto simp: quoteByte_def Let_def newline_def)
qed

lemma quoteASCII_no_newline: "newline \<notin> set (quoteASCII s)"
  using quoteByte_no_newline by (auto simp: quoteASCII_def newline_def)

lemma failureCounter_output:
  "failureCounter q (out, num) failures =
     (out @ concat (map (\<lambda>f. ''#'' @ Itoa (Id f) @ '': failed for ''
                              @ (if testDNS f then ''DNS'' else ''IP'') @ '':''
                              @ [newline] @ ''  '' @ quoteError q (err f)
                              @ [newline] @ ''  '' @ q (Join (descriptions f) '' '')
                              @ [newline]) failures),
      num + length failures)"
  by (induction failures arbitrary: out num) (simp_all add: Let_def)

lemma quoteError_no_newline: "\<forall>s. newline \<notin> set (q s) \<Longrightarrow> newline \<notin> set (quoteError q e)"
  by (cases e) (simp_all add: quoteError_def newline_def)

lemma Itoa_examples: "Itoa 8 = ''8''" "Itoa 9 = ''9''" "Itoa 1 = ''1''" "Itoa 2 = ''2''"
  by (simp_all add: Itoa_def natDigits.simps digitChar_def)

text \<open>
  C9, as the claim states it, fails: the format string of \<open>failureCounter\<close> has three
  newlines. For the DNS trial of expectation 9, failed with an error of the verifier, the
  text printed is three lines, with the error and the joined descriptions each quoted on a
  line of its own, not one line.
\<close>

theorem one_line_per_failure_counterexample:
  "fst (failureCounter quoteASCII ([], 0)
         [(exampleTrial 9 ''WEAK-OK'' [] [ipViolation] True)
            \<lparr>err := Some (External ''x509: certificate is not valid for any names'')\<rparr>])
     = ''#9: failed for DNS:'' @ [newline]
       @ ''  '' @ [CHR 0x22] @ ''x509: certificate is not valid for any names'' @ [CHR 0x22] @ [newline]
       @ ''  '' @ [CHR 0x22] @ ''The IP in the SAN extension violates a name constraint.'' @ [CHR 0x22]
       @ [newline] \<and>
   count_list (fst (failureCounter quoteASCII ([], 0)
         [(exampleTrial 9 ''WEAK-OK'' [] [ipViolation] True)
            \<lparr>err := Some (External ''x509: certificate is not valid for any names'')\<rparr>])) newline = 3"
  by (simp add: exampleTrial_def descriptions_def quoteError_def Itoa_examples ipViolation_def
      quoteASCII_def quoteByte_def newline_def)

text \<open>
  C9, amended. For every failed trial the aggregator prints exactly one record of three
  lines, in the order the failures arrive: \<open>#<id>: failed for <IP|DNS>:\<close>, then
  two spaces and the error quoted by \<open>%q\<close>, then two spaces and the descriptions
  joined by single spaces and quoted by \<open>%q\<close>; and it counts one for each record.
  The number of newlines printed is three times the number of failures, since the quoting
  of the library never yields a newline.
\<close>

theorem failure_report_is_three_lines:
  assumes "\<forall>s. newline \<notin> set (q s)"
  shows "failureCounter q ([], 0) failures =
     (concat (map (\<lambda>f. ''#'' @ Itoa (Id f) @ '': failed for ''
                        @ (if testDNS f then ''DNS'' else ''IP'') @ '':''
                        @ [newline] @ ''  '' @ quoteError q (err f)
                        @ [newline] @ ''  '' @ q (Join (descriptions f) '' '')
                        @ [newline]) failures),
      length failures) \<and>
    count_list (fst (failureCounter q ([], 0) failures)) newline = 3 * length failures"
proof -
  define line where "line = (\<lambda>f. ''#'' @ Itoa (Id f) @ '': failed for ''
                        @ (if testDNS f then ''DNS'' else ''IP'') @ '':''
                        @ [newline] @ ''  '' @ quoteError q (err f)
                        @ [newline] @ ''  '' @ q (Join (descriptions f) '' '')
                        @ [newline])"
  have three: "count_list (line f) newline = 3" for f
    using assms Itoa_no_newline [of "Id f"] quoteError_no_newline [OF assms, of "err f"]
    by (simp add: line_def newline_def)
  have lines: "count_list (concat (map line fs)) newline = 3 * length fs" for fs
    by (induction fs) (simp_all add: three)
  have "failureCounter q ([], 0) failures = (concat (map line failures), length failures)"
    by (simp add: failureCounter_output line_def)
  with lines [of failures] show ?thesis
    by (simp add: line_def)
qed

theorem failure_report_is_three_lines_witness:
  "failureCounter quoteASCII ([], 0) [exampleTrial 8 ''ERROR'' [] [] True]
     = (''#8: failed for DNS:'' @ [newline] @ ''  %!q(<nil>)'' @ [newline]
        @ ''  '' @ [CHR 0x22, CHR 0x22] @ [newline], 1) \<and>
   count_list (fst (failureCounter quoteASCII ([], 0) [exampleTrial 8 ''ERROR'' [] [] True])) newline
     = 3"
proof -
  have h: "\<forall>s. newline \<notin> set (quoteASCII s)"
    using quoteASCII_no_newline by blast
  from failure_report_is_three_lines [OF h, of "[exampleTrial 8 ''ERROR'' [] [] True]"]
  show ?thesis
    by (simp add: exampleTrial_def descriptions_def quoteError_def Itoa_examples quoteASCII_def)
qed

subsection \<open>The exit status\<close>







end
